theory Spec2Isabelle
  imports Main "HOL-Library.Sublist" "HOL-Library.Char_ord" "HOL-Library.List_Lexorder"
begin

section \<open>Strings\<close>

text \<open>
  The flowchart component works on JavaScript strings. They are modelled as
  \<^typ>\<open>string\<close>, one \<^typ>\<open>char\<close> per code unit, so the model covers the strings
  whose code units are below 256 (Basic Latin and Latin-1 Supplement). On these,
  \<open>toLowerCase\<close> works code unit by code unit: it moves \<open>A\<close>..\<open>Z\<close> (65..90) and the
  capital letters 192..222 except the multiplication sign 215 up by 32 and leaves
  every other code unit alone. \<open>trim\<close> strips tab, line feed, vertical tab, form
  feed, carriage return, space and the no-break space 160 from both ends.
\<close>

definition lowerChar :: "char \<Rightarrow> char" where
  "lowerChar c =
     (let n = (of_char c :: nat)
      in if (65 \<le> n \<and> n \<le> 90) \<or> (192 \<le> n \<and> n \<le> 222 \<and> n \<noteq> 215)
         then char_of (n + 32) else c)"

definition toLowerCase :: "string \<Rightarrow> string" where
  "toLowerCase s = map lowerChar s"

definition isSpace :: "char \<Rightarrow> bool" where
  "isSpace c = ((of_char c :: nat) \<in> {9, 10, 11, 12, 13, 32, 160})"

definition trim :: "string \<Rightarrow> string" where
  "trim s = rev (dropWhile isSpace (rev (dropWhile isSpace s)))"

text \<open>\<open>s.split(sep)\<close> for a one-character separator: never the empty list.\<close>

fun split :: "char \<Rightarrow> string \<Rightarrow> string list" where
  "split sep [] = [[]]"
| "split sep (c # cs) =
     (if c = sep then [] # split sep cs
      else (case split sep cs of
              [] \<Rightarrow> [[c]]
            | w # ws \<Rightarrow> (c # w) # ws))"

text \<open>\<open>xs.join(sep)\<close>.\<close>

fun join :: "string \<Rightarrow> string list \<Rightarrow> string" where
  "join sep [] = []"
| "join sep [x] = x"
| "join sep (x # y # ys) = x @ sep @ join sep (y # ys)"

text \<open>
  \<open>hay.includes(q)\<close>: scan the start positions of \<open>hay\<close> from the left and
  compare \<open>q\<close> with what starts there.
\<close>

fun includes_str :: "string \<Rightarrow> string \<Rightarrow> bool" where
  "includes_str [] q = (q = [])"
| "includes_str (c # cs) q = (prefix q (c # cs) \<or> includes_str cs q)"

text \<open>\<open>s || d\<close> on an optional string: \<open>undefined\<close> and \<open>""\<close> are both falsy.\<close>

fun orElse :: "string option \<Rightarrow> string \<Rightarrow> string" where
  "orElse None d = d"
| "orElse (Some s) d = (if s = [] then d else s)"

section \<open>Rows\<close>

text \<open>
  \<open>type Row\<close>. A field declared with \<open>?\<close> is an option. \<open>priority\<close> is
  \<open>string | number\<close> and only ever displayed.
\<close>

datatype priority = PString string | PNumber int

record Row =
  id_row :: string
  title :: string
  section_row :: "string option"
  stage :: "string option"
  description :: "string option"
  priority :: "priority option"
  depends_on :: "string option"
  status :: "string option"
  tags :: "string option"

definition STAGE_ORDER :: "string list" where
  "STAGE_ORDER = [''Setup'', ''Start'', ''Early'', ''Late'']"

text \<open>\<open>ci = (s) => (s || "").toLowerCase()\<close>\<close>

definition ci :: "string option \<Rightarrow> string" where
  "ci s = toLowerCase (orElse s [])"

text \<open>\<open>list = (s) => (s || "").split("|").map(t => t.trim()).filter(Boolean)\<close>\<close>

definition list :: "string option \<Rightarrow> string list" where
  "list s = filter (\<lambda>t. t \<noteq> []) (map trim (split (CHR ''|'') (orElse s [])))"

section \<open>Dependency closure\<close>

definition depsOf :: "Row \<Rightarrow> string list" where
  "depsOf r = list (depends_on r)"

definition isDone :: "Row \<Rightarrow> bool" where
  "isDone r = (status r = Some ''done'')"

text \<open>\<open>completed = new Set(rawRows.filter(r => r.status === "done").map(r => r.id))\<close>\<close>

definition completed :: "Row list \<Rightarrow> string set" where
  "completed rawRows = set (map id_row (filter isDone rawRows))"

text \<open>
  \<open>actionable = new Set(rawRows.filter(r => (r.status !== "done") &&
     depsOf(r).every(d => completed.has(d))).map(r => r.id))\<close>
\<close>

definition actionable :: "Row list \<Rightarrow> string set" where
  "actionable rawRows =
     set (map id_row
       (filter (\<lambda>r. \<not> isDone r \<and> list_all (\<lambda>d. d \<in> completed rawRows) (depsOf r)) rawRows))"

section \<open>Filter predicates\<close>

datatype StatusFilter = F_all | F_todo | F_done

record FilterState =
  query :: string
  statusFilter :: StatusFilter
  selectedStages :: "string list"
  selectedSections :: "string list"
  selectedTags :: "string list"
  onlyNextActionable :: bool

definition okStatus :: "FilterState \<Rightarrow> Row \<Rightarrow> bool" where
  "okStatus st r =
     (case statusFilter st of F_all \<Rightarrow> True | F_todo \<Rightarrow> \<not> isDone r | F_done \<Rightarrow> isDone r)"

definition okStage :: "FilterState \<Rightarrow> Row \<Rightarrow> bool" where
  "okStage st r = (orElse (stage r) [] \<in> set (selectedStages st))"

definition okSection :: "FilterState \<Rightarrow> Row \<Rightarrow> bool" where
  "okSection st r = (orElse (section_row r) ''General'' \<in> set (selectedSections st))"

definition okTags :: "FilterState \<Rightarrow> Row \<Rightarrow> bool" where
  "okTags st r =
     (if selectedTags st = [] then True
      else list_ex (\<lambda>t. t \<in> set (selectedTags st)) (list (tags r)))"

definition hay :: "Row \<Rightarrow> string" where
  "hay r = join '' '' (map ci [Some (title r), description r, section_row r, stage r, tags r])"

definition okSearch :: "FilterState \<Rightarrow> Row \<Rightarrow> bool" where
  "okSearch st r =
     (let q = ci (Some (query st)) in if q = [] then True else includes_str (hay r) q)"

text \<open>
  The rows that pass every predicate and, when only the next actionable rows are
  asked for, whose id is in the actionable set of the full row list.
\<close>

definition visibleRows :: "FilterState \<Rightarrow> Row list \<Rightarrow> Row list" where
  "visibleRows st rawRows =
     (let vis = filter (\<lambda>r. okStatus st r \<and> okStage st r \<and> okSection st r \<and> okTags st r
                               \<and> okSearch st r) rawRows
      in if onlyNextActionable st then filter (\<lambda>r. id_row r \<in> actionable rawRows) vis
         else vis)"

section \<open>Graph builder\<close>

record Edge =
  id_edge :: string
  source :: string
  target :: string

text \<open>
  A node before layout. The label is kept as the values it is rendered from; the
  constant style, \<open>draggable\<close> and \<open>selectable\<close> are left out.
\<close>

record Node =
  id_node :: string
  position :: "int \<times> int"
  label_title :: string
  label_section :: string
  label_stage :: "string option"
  label_description :: "string option"
  label_checked :: bool
  label_priority :: "priority option"
  className :: string

definition visibleIds :: "FilterState \<Rightarrow> Row list \<Rightarrow> string set" where
  "visibleIds st rawRows = set (map id_row (visibleRows st rawRows))"

definition edgesBuilt :: "FilterState \<Rightarrow> Row list \<Rightarrow> Edge list" where
  "edgesBuilt st rawRows =
     concat (map (\<lambda>r.
        map (\<lambda>dep. \<lparr>id_edge = dep @ ''->'' @ id_row r, source = dep, target = id_row r\<rparr>)
          (filter (\<lambda>dep. dep \<in> visibleIds st rawRows) (depsOf r)))
       (visibleRows st rawRows))"

definition nodeOf :: "Row \<Rightarrow> Node" where
  "nodeOf r =
     \<lparr>id_node = id_row r, position = (0, 0),
      label_title = title r, label_section = orElse (section_row r) ''General'',
      label_stage = stage r, label_description = description r,
      label_checked = isDone r, label_priority = priority r,
      className = ''stage-'' @ toLowerCase (orElse (stage r) [])\<rparr>"

definition nodesBuilt :: "FilterState \<Rightarrow> Row list \<Rightarrow> Node list" where
  "nodesBuilt st rawRows = map nodeOf (visibleRows st rawRows)"

section \<open>Row store\<close>

text \<open>
  The \<open>onChange\<close> handler of a row's check box: every row with that id gets the
  status \<open>"done"\<close> or \<open>"todo"\<close>, every other row is kept.
\<close>

definition onChange :: "Row list \<Rightarrow> string \<Rightarrow> bool \<Rightarrow> Row list" where
  "onChange rawRows rid checked =
     map (\<lambda>rr. if id_row rr = rid
               then rr\<lparr>status := Some (if checked then ''done'' else ''todo'')\<rparr>
               else rr) rawRows"

text \<open>
  A click on the box of row \<open>r\<close>: the box shows \<open>r.status === "done"\<close>, the click
  reports the opposite.
\<close>

definition click :: "Row list \<Rightarrow> Row \<Rightarrow> Row list" where
  "click rawRows r = onChange rawRows (id_row r) (\<not> isDone r)"

text \<open>
  Loading: the parsed CSV records are normalised (\<open>id\<close> and \<open>title\<close> trimmed, an
  absent one being the empty string; an absent stage \<open>"Unsorted"\<close>, an absent status
  \<open>"todo"\<close>), then every row with a saved, non-empty status gets that status. The
  saved statuses are the own properties of the stored object, a string per row id;
  the members that a JavaScript object inherits (\<open>constructor\<close>, \<open>valueOf\<close> and the
  like), which the code would read for a row with such an id, are not part of the
  map.
\<close>

definition loadRow :: "Row \<Rightarrow> Row" where
  "loadRow r =
     r\<lparr>id_row := trim (id_row r), title := trim (title r),
       stage := Some (trim (orElse (stage r) ''Unsorted'')),
       status := Some (trim (orElse (status r) ''todo''))\<rparr>"

definition mergeSaved :: "(string \<rightharpoonup> string) \<Rightarrow> Row \<Rightarrow> Row" where
  "mergeSaved saved r =
     (case saved (id_row r) of
        None \<Rightarrow> r
      | Some s \<Rightarrow> if s = [] then r else r\<lparr>status := Some s\<rparr>)"

definition loadRows :: "(string \<rightharpoonup> string) \<Rightarrow> Row list \<Rightarrow> Row list" where
  "loadRows saved parsed = map (mergeSaved saved) (map loadRow parsed)"

section \<open>Default section selection\<close>

text \<open>
  The part of the component state that the section default reads and writes: the
  row store and the filter state.
\<close>

record AppState =
  rawRows :: "Row list"
  filterState :: FilterState

text \<open>\<open>Array.from(new Set(rawRows.map(r => r.section || "General"))).sort()\<close>\<close>

definition allSections :: "Row list \<Rightarrow> string list" where
  "allSections rows = sort (remdups (map (\<lambda>r. orElse (section_row r) ''General'') rows))"

definition initialState :: AppState where
  "initialState =
     \<lparr>rawRows = [],
      filterState = \<lparr>query = [], statusFilter = F_all, selectedStages = STAGE_ORDER,
                      selectedSections = [], selectedTags = [],
                      onlyNextActionable = False\<rparr>\<rparr>"

text \<open>
  The body of the effect:
  \<open>if (rawRows.length && selectedSections.length === 0) setSelectedSections(allSections)\<close>
\<close>

definition defaultSections :: "AppState \<Rightarrow> AppState" where
  "defaultSections s =
     (if rawRows s \<noteq> [] \<and> selectedSections (filterState s) = []
      then s\<lparr>filterState := (filterState s)\<lparr>selectedSections := allSections (rawRows s)\<rparr>\<rparr>
      else s)"

text \<open>The effect's dependency array \<open>[rawRows, allSections, selectedSections.length]\<close>.\<close>

definition effectDeps :: "AppState \<Rightarrow> Row list \<times> string list \<times> nat" where
  "effectDeps s = (rawRows s, allSections (rawRows s), length (selectedSections (filterState s)))"

text \<open>
  The state setters that reach the effect: \<open>setRawRows\<close> (the CSV load and the check
  boxes) and \<open>setSelectedSections\<close> (the section chips and the buttons All and None).
\<close>

datatype Action = SetRawRows "Row list" | SetSelectedSections "string list"

fun setState :: "Action \<Rightarrow> AppState \<Rightarrow> AppState" where
  "setState (SetRawRows rows) s = s\<lparr>rawRows := rows\<rparr>"
| "setState (SetSelectedSections secs) s =
     s\<lparr>filterState := (filterState s)\<lparr>selectedSections := secs\<rparr>\<rparr>"

text \<open>
  One update as React commits it: the new state is rendered, the effect runs when one
  of its dependencies differs from the previous render, and the update the effect
  makes is rendered and followed by the effect in the same way. The dependencies are
  compared by content; the body of the effect reads nothing but its dependencies, so
  a run on unchanged content would leave the state as it is.
\<close>

definition afterRender :: "AppState \<Rightarrow> AppState \<Rightarrow> AppState" where
  "afterRender prev s = (if effectDeps s = effectDeps prev then s else defaultSections s)"

definition dispatch :: "Action \<Rightarrow> AppState \<Rightarrow> AppState" where
  "dispatch a s = (let s1 = setState a s; s2 = afterRender s s1 in afterRender s1 s2)"

section \<open>Layout\<close>

definition NODE_W :: int where "NODE_W = 320"
definition NODE_H :: int where "NODE_H = 130"
definition RANK_SEP :: int where "RANK_SEP = 200"
definition NODE_SEP :: int where "NODE_SEP = 80"
definition MARGIN :: int where "MARGIN = 40"

datatype Direction = LR | TB

datatype Handle = Handle_Left | Handle_Right | Handle_Top | Handle_Bottom

record LaidOutNode = Node +
  sourcePosition :: Handle
  targetPosition :: Handle

text \<open>The largest number of a list, 0 for the empty list.\<close>

definition maxList :: "nat list \<Rightarrow> nat" where
  "maxList xs = foldr max xs 0"

text \<open>
  Modelled from the spec: the layered layout routine \<open>dagre.layout\<close>, a third-party
  library that is called by the component and is not part of its sources. Section
  4.4 of the design has the rank of a node be its longest-path distance from the
  source nodes of the visible graph. \<open>longestPath es k v\<close> is the longest distance
  over paths of at most \<open>k\<close> edges, so the routine ends on every graph, cyclic or not.
\<close>

fun longestPath :: "Edge list \<Rightarrow> nat \<Rightarrow> string \<Rightarrow> nat" where
  "longestPath es 0 v = 0"
| "longestPath es (Suc k) v =
     maxList (map (\<lambda>e. Suc (longestPath es k (source e))) (filter (\<lambda>e. target e = v) es))"

text \<open>
  Modelled from the spec: the rank of a node of \<open>dagre.layout\<close> (not under the
  sources), the longest-path distance with as many rounds as there are nodes.
\<close>

definition rank :: "Node list \<Rightarrow> Edge list \<Rightarrow> string \<Rightarrow> nat" where
  "rank ns es v = longestPath es (length ns) v"

text \<open>
  Modelled from the spec: the sibling order of \<open>dagre.layout\<close> (not under the
  sources), the number of earlier nodes of the node list on the same rank.
\<close>

definition siblingIndex :: "Node list \<Rightarrow> Edge list \<Rightarrow> string \<Rightarrow> nat" where
  "siblingIndex ns es v =
     length (filter (\<lambda>n. rank ns es (id_node n) = rank ns es v)
       (takeWhile (\<lambda>n. id_node n \<noteq> v) ns))"

text \<open>
  Modelled from the spec: the centre that \<open>dagre.layout\<close> (not under the sources)
  gives node \<open>v\<close>. Section 4.4: the rank determines the coordinate on the rank axis
  (x for \<open>LR\<close>, y for \<open>TB\<close>), the sibling order the other one; ranks and siblings
  are a box and the configured separation apart, inside the margin.
\<close>

definition dagreNode :: "Direction \<Rightarrow> Node list \<Rightarrow> Edge list \<Rightarrow> string \<Rightarrow> int \<times> int" where
  "dagreNode dir ns es v =
     (case dir of
        LR \<Rightarrow> (MARGIN + int (rank ns es v) * (NODE_W + RANK_SEP) + NODE_W div 2,
               MARGIN + int (siblingIndex ns es v) * (NODE_H + NODE_SEP) + NODE_H div 2)
      | TB \<Rightarrow> (MARGIN + int (siblingIndex ns es v) * (NODE_W + NODE_SEP) + NODE_W div 2,
               MARGIN + int (rank ns es v) * (NODE_H + RANK_SEP) + NODE_H div 2))"

text \<open>
  The layout effect of the component: every built node gets the top-left corner of
  its box from the centre that the layout routine returns, and its handle sides from
  the direction. The edges are passed on with constant styling, left out here.
\<close>

definition laidOutNodes :: "Direction \<Rightarrow> Node list \<Rightarrow> Edge list \<Rightarrow> LaidOutNode list" where
  "laidOutNodes dir nodesB edgesB =
     map (\<lambda>n. case dagreNode dir nodesB edgesB (id_node n) of
                (x, y) \<Rightarrow>
                  Node.extend (n\<lparr>position := (x - NODE_W div 2, y - NODE_H div 2)\<rparr>)
                    (LaidOutNode.fields
                       (if dir = LR then Handle_Right else Handle_Bottom)
                       (if dir = LR then Handle_Left else Handle_Top)))
       nodesB"

text \<open>The coordinate on the rank axis: x for \<open>LR\<close>, y for \<open>TB\<close>.\<close>

fun rankAxis :: "Direction \<Rightarrow> int \<times> int \<Rightarrow> int" where
  "rankAxis LR (x, y) = x"
| "rankAxis TB (x, y) = y"

definition edgeRel :: "Edge list \<Rightarrow> (string \<times> string) set" where
  "edgeRel es = set (map (\<lambda>e. (source e, target e)) es)"

section \<open>Case folding as a table\<close>

text \<open>
  The reference that the search is compared with, written down as a table and not
  as arithmetic: the capital letters among the code units below 256 and, at the same
  position, their small forms. Folding replaces a capital letter by its small form
  and keeps every other code unit.
\<close>

definition capitals :: string where
  "capitals = ''ABCDEFGHIJKLMNOPQRSTUVWXYZ'' @
       [CHR 0xC0, CHR 0xC1, CHR 0xC2, CHR 0xC3, CHR 0xC4, CHR 0xC5, CHR 0xC6, CHR 0xC7,
        CHR 0xC8, CHR 0xC9, CHR 0xCA, CHR 0xCB, CHR 0xCC, CHR 0xCD, CHR 0xCE, CHR 0xCF,
        CHR 0xD0, CHR 0xD1, CHR 0xD2, CHR 0xD3, CHR 0xD4, CHR 0xD5, CHR 0xD6, CHR 0xD8,
        CHR 0xD9, CHR 0xDA, CHR 0xDB, CHR 0xDC, CHR 0xDD, CHR 0xDE]"

definition smalls :: string where
  "smalls = ''abcdefghijklmnopqrstuvwxyz'' @
       [CHR 0xE0, CHR 0xE1, CHR 0xE2, CHR 0xE3, CHR 0xE4, CHR 0xE5, CHR 0xE6, CHR 0xE7,
        CHR 0xE8, CHR 0xE9, CHR 0xEA, CHR 0xEB, CHR 0xEC, CHR 0xED, CHR 0xEE, CHR 0xEF,
        CHR 0xF0, CHR 0xF1, CHR 0xF2, CHR 0xF3, CHR 0xF4, CHR 0xF5, CHR 0xF6, CHR 0xF8,
        CHR 0xF9, CHR 0xFA, CHR 0xFB, CHR 0xFC, CHR 0xFD, CHR 0xFE]"

definition foldCase :: "char \<Rightarrow> char" where
  "foldCase c = (case map_of (zip capitals smalls) c of Some l \<Rightarrow> l | None \<Rightarrow> c)"

section \<open>Auxiliary notions\<close>

text \<open>
  Two rows that differ at most in the status text and agree on being done: the graph
  builder cannot tell them apart.
\<close>

definition sameView :: "Row \<Rightarrow> Row \<Rightarrow> bool" where
  "sameView r r' = (r' = r\<lparr>status := status r'\<rparr> \<and> isDone r' = isDone r)"

text \<open>The nodes from which a node can be reached along the edges.\<close>

definition ancestors :: "Edge list \<Rightarrow> string \<Rightarrow> string set" where
  "ancestors es v = {u. (u, v) \<in> (edgeRel es)\<^sup>+}"

section \<open>Example rows\<close>

definition ex_A :: Row where
  "ex_A = \<lparr>id_row = ''A'', title = ''Alpha'', section_row = None, stage = Some ''Setup'',
            description = None, priority = None, depends_on = Some [], status = Some ''done'',
            tags = None\<rparr>"

definition ex_B :: Row where
  "ex_B = \<lparr>id_row = ''B'', title = ''Beta'', section_row = None, stage = Some ''Start'',
            description = Some ''Second Step'', priority = None, depends_on = Some ''A'',
            status = Some ''todo'', tags = Some ''x|y''\<rparr>"

definition ex_C :: Row where
  "ex_C = \<lparr>id_row = ''C'', title = ''Gamma'', section_row = None, stage = Some ''Early'',
            description = None, priority = None, depends_on = Some ''X'', status = Some ''todo'',
            tags = None\<rparr>"

definition ex_D :: Row where
  "ex_D = \<lparr>id_row = ''D'', title = ''Delta'', section_row = None, stage = Some ''Late'',
            description = None, priority = None, depends_on = None, status = Some ''todo'',
            tags = None\<rparr>"

definition ex_B2 :: Row where
  "ex_B2 = \<lparr>id_row = ''B'', title = ''Beta'', section_row = None, stage = Some ''Start'',
             description = None, priority = None, depends_on = Some ''A|A'',
             status = Some ''todo'', tags = None\<rparr>"

definition ex_rows :: "Row list" where
  "ex_rows = [ex_A, ex_B, ex_C, ex_D]"

definition ex_C2 :: Row where
  "ex_C2 = \<lparr>id_row = ''C'', title = ''Gamma'', section_row = None, stage = Some ''Early'',
             description = None, priority = None, depends_on = Some ''B'',
             status = Some ''todo'', tags = None\<rparr>"

definition ex_chain :: "Row list" where
  "ex_chain = [ex_A, ex_B, ex_C2]"

text \<open>A parsed CSV record without stage and status.\<close>

definition ex_raw :: Row where
  "ex_raw = \<lparr>id_row = '' E '', title = ''Epsilon'', section_row = None, stage = None,
             description = None, priority = None, depends_on = None, status = None,
             tags = None\<rparr>"

definition ex_default :: FilterState where
  "ex_default = \<lparr>query = [], statusFilter = F_all, selectedStages = STAGE_ORDER,
                  selectedSections = [''General''], selectedTags = [],
                  onlyNextActionable = False\<rparr>"

definition ex_next :: FilterState where
  "ex_next = ex_default\<lparr>onlyNextActionable := True\<rparr>"

definition ex_edge :: Edge where
  "ex_edge = \<lparr>id_edge = ''A->B'', source = ''A'', target = ''B''\<rparr>"

definition ex_laid :: "Direction \<Rightarrow> LaidOutNode list" where
  "ex_laid dir =
     laidOutNodes dir (nodesBuilt ex_default ex_chain) (edgesBuilt ex_default ex_chain)"

definition ex_E :: Row where
  "ex_E = \<lparr>id_row = ''E'', title = ''Epsilon'', section_row = Some ''Economy'',
            stage = Some ''Late'', description = None, priority = Some (PString ''1''),
            depends_on = None, status = Some ''todo'', tags = None\<rparr>"

text \<open>The state after the rows \<open>A\<close> and \<open>E\<close> are loaded into the initial state.\<close>

definition ex_loaded :: AppState where
  "ex_loaded = dispatch (SetRawRows [ex_A, ex_E]) initialState"

text \<open>
  A row titled e-acute, t, e-acute, and the queries used on the example rows: one
  in capitals with E-acute, and one that spans the end of a title and the start of a
  description.
\<close>

definition ex_F :: Row where
  "ex_F = \<lparr>id_row = ''F'', title = [CHR 0xE9, CHR ''t'', CHR 0xE9], section_row = None,
            stage = Some ''Late'', description = None, priority = None, depends_on = None,
            status = Some ''todo'', tags = None\<rparr>"

definition ex_latin :: FilterState where
  "ex_latin = \<lparr>query = [CHR 0xC9, CHR ''T'', CHR 0xC9], statusFilter = F_all,
                selectedStages = STAGE_ORDER, selectedSections = [''General''],
                selectedTags = [], onlyNextActionable = False\<rparr>"

definition ex_cross :: FilterState where
  "ex_cross = \<lparr>query = ''A s'', statusFilter = F_all, selectedStages = STAGE_ORDER,
                selectedSections = [''General''], selectedTags = [],
                onlyNextActionable = False\<rparr>"

definition ex_filter :: FilterState where
  "ex_filter = \<lparr>query = ''STEP'', statusFilter = F_all, selectedStages = STAGE_ORDER,
                 selectedSections = [''General''], selectedTags = [],
                 onlyNextActionable = False\<rparr>"

section \<open>The actionable set\<close>

lemma completed_iff:
  "i \<in> completed rows \<longleftrightarrow> (\<exists>r \<in> set rows. id_row r = i \<and> isDone r)"
  by (auto simp: completed_def)

lemma actionable_iff:
  "i \<in> actionable rows \<longleftrightarrow>
     (\<exists>r \<in> set rows. id_row r = i \<and> \<not> isDone r \<and>
        (\<forall>d \<in> set (depsOf r). d \<in> completed rows))"
  by (auto simp: actionable_def list_all_iff)

lemma distinct_id_eq:
  "distinct (map id_row rows) \<Longrightarrow> r \<in> set rows \<Longrightarrow> r' \<in> set rows \<Longrightarrow>
     id_row r = id_row r' \<Longrightarrow> r = r'"
  by (auto simp: distinct_map inj_on_def)

text \<open>
  C1. The completed set is the ids of the rows whose status is \<open>"done"\<close>, and the
  actionable set is the ids of the rows that are not done and whose every dependency
  id is in the completed set. When the ids of the row list are pairwise different
  (the data model's assumption), a row is actionable iff it is not done and all its
  dependencies are completed; a row without dependencies is actionable iff it is not
  done; and a row that lists a dependency id occurring in no row is not actionable.
\<close>

theorem actionable_exact:
  "completed rows = id_row ` {r \<in> set rows. status r = Some ''done''} \<and>
   actionable rows =
     id_row ` {r \<in> set rows. status r \<noteq> Some ''done'' \<and>
                 (\<forall>d \<in> set (depsOf r). d \<in> completed rows)} \<and>
   (distinct (map id_row rows) \<longrightarrow>
      (\<forall>r \<in> set rows.
         (id_row r \<in> actionable rows \<longleftrightarrow>
            status r \<noteq> Some ''done'' \<and> (\<forall>d \<in> set (depsOf r). d \<in> completed rows)) \<and>
         (depsOf r = [] \<longrightarrow> (id_row r \<in> actionable rows \<longleftrightarrow> status r \<noteq> Some ''done'')) \<and>
         ((\<exists>d \<in> set (depsOf r). d \<notin> id_row ` set rows) \<longrightarrow>
            id_row r \<notin> actionable rows)))"
proof (intro conjI impI ballI)
  show "completed rows = id_row ` {r \<in> set rows. status r = Some ''done''}"
    by (auto simp: completed_def isDone_def)
  show "actionable rows =
     id_row ` {r \<in> set rows. status r \<noteq> Some ''done'' \<and>
                 (\<forall>d \<in> set (depsOf r). d \<in> completed rows)}"
    by (auto simp: actionable_def isDone_def list_all_iff)
next
  fix r assume d: "distinct (map id_row rows)" and r: "r \<in> set rows"
  show main: "id_row r \<in> actionable rows \<longleftrightarrow>
            status r \<noteq> Some ''done'' \<and> (\<forall>d \<in> set (depsOf r). d \<in> completed rows)"
    using distinct_id_eq[OF d _ r] r unfolding actionable_iff isDone_def by blast
  show "id_row r \<in> actionable rows \<longleftrightarrow> status r \<noteq> Some ''done''" if "depsOf r = []"
    using main that by simp
  show "id_row r \<notin> actionable rows" if "\<exists>d \<in> set (depsOf r). d \<notin> id_row ` set rows"
    using main that by (auto simp: completed_iff)
qed

theorem actionable_exact_witness:
  "distinct (map id_row ex_rows) \<and> ex_C \<in> set ex_rows \<and> ex_D \<in> set ex_rows \<and>
   (\<exists>d \<in> set (depsOf ex_C). d \<notin> id_row ` set ex_rows) \<and>
   depsOf ex_D = [] \<and> status ex_D \<noteq> Some ''done'' \<and>
   id_row ex_C \<notin> actionable ex_rows \<and> id_row ex_D \<in> actionable ex_rows"
proof -
  have d: "distinct (map id_row ex_rows)"
    by code_simp
  have m: "ex_C \<in> set ex_rows" "ex_D \<in> set ex_rows"
    by (simp_all add: ex_rows_def)
  have x: "\<exists>d \<in> set (depsOf ex_C). d \<notin> id_row ` set ex_rows"
    by code_simp
  have n: "depsOf ex_D = []" "status ex_D \<noteq> Some ''done''"
    by code_simp+
  from actionable_exact[of ex_rows] d m x n
  have "id_row ex_C \<notin> actionable ex_rows \<and> id_row ex_D \<in> actionable ex_rows"
    by blast
  with d m x n show ?thesis
    by blast
qed

section \<open>Search\<close>

lemma includes_str_sublist: "includes_str h q \<longleftrightarrow> sublist q h"
  by (induction h) (auto simp: sublist_Cons_right)

text \<open>The arithmetic of \<open>lowerChar\<close> and the table agree on all 256 code units.\<close>

lemma lowerChar_foldCase: "lowerChar c = foldCase c"
proof -
  have "\<forall>c. lowerChar c = foldCase c"
    by code_simp
  then show ?thesis
    by blast
qed

lemma toLowerCase_foldCase: "toLowerCase s = map foldCase s"
  by (simp add: toLowerCase_def lowerChar_foldCase)

lemma foldCase_space: "foldCase (CHR '' '') = CHR '' ''"
  by code_simp

lemma hay_folded:
  "hay r = map foldCase (title r @ '' '' @ orElse (description r) [] @ '' '' @
             orElse (section_row r) [] @ '' '' @ orElse (stage r) [] @ '' '' @
             orElse (tags r) [])"
  by (simp add: hay_def ci_def toLowerCase_foldCase foldCase_space)

text \<open>
  C8. The search predicate accepts a row iff the case-folded query is a contiguous
  substring of the case-folded text made of the title, the description, the section,
  the stage and the tags of the row in this order with one space between neighbours
  (an absent field counts as the empty string); the empty query accepts every row.
  Case folding is the table \<open>foldCase\<close>, with which the code's \<open>toLowerCase\<close> agrees
  on every code unit.
\<close>

theorem okSearch_substring:
  "(okSearch st r \<longleftrightarrow>
      sublist (map foldCase (query st))
        (map foldCase (title r @ '' '' @ orElse (description r) [] @ '' '' @
           orElse (section_row r) [] @ '' '' @ orElse (stage r) [] @ '' '' @
           orElse (tags r) []))) \<and>
   (query st = [] \<longrightarrow> okSearch st r)"
proof -
  have q: "ci (Some (query st)) = map foldCase (query st)"
    by (simp add: ci_def toLowerCase_foldCase)
  have "okSearch st r \<longleftrightarrow> sublist (map foldCase (query st)) (hay r)"
    by (auto simp: okSearch_def q includes_str_sublist Let_def)
  moreover have "okSearch st r" if "query st = []"
    using that by (simp add: okSearch_def ci_def toLowerCase_def Let_def)
  ultimately show ?thesis
    unfolding hay_folded by blast
qed

text \<open>
  On the example rows: \<open>STEP\<close> is found in the description \<open>Second Step\<close> of \<open>B\<close>
  and not in \<open>A\<close>; \<open>A s\<close> is found in \<open>B\<close> across the space that joins the title
  \<open>Beta\<close> and the description; the query in capitals with E-acute finds the title
  with e-acute; the empty query accepts \<open>A\<close>.
\<close>

theorem okSearch_substring_witness:
  "map foldCase (query ex_filter) = ''step'' \<and>
   map foldCase (title ex_B @ '' '' @ orElse (description ex_B) [] @ '' '' @
     orElse (section_row ex_B) [] @ '' '' @ orElse (stage ex_B) [] @ '' '' @
     orElse (tags ex_B) []) = ''beta second step  start x|y'' \<and>
   okSearch ex_filter ex_B \<and> \<not> okSearch ex_filter ex_A \<and>
   map foldCase (query ex_cross) = ''a s'' \<and> okSearch ex_cross ex_B \<and>
   \<not> okSearch ex_cross ex_A \<and>
   okSearch ex_latin ex_F \<and> \<not> okSearch ex_latin ex_B \<and>
   query ex_default = [] \<and> okSearch ex_default ex_A"
proof -
  have v1: "map foldCase (query ex_filter) = ''step''"
    by code_simp
  have v2: "map foldCase (title ex_B @ '' '' @ orElse (description ex_B) [] @ '' '' @
       orElse (section_row ex_B) [] @ '' '' @ orElse (stage ex_B) [] @ '' '' @
       orElse (tags ex_B) []) = ''beta second step  start x|y''"
    by code_simp
  have v3: "map foldCase (query ex_cross) = ''a s''"
    by code_simp
  have 1: "sublist (map foldCase (query ex_filter))
     (map foldCase (title ex_B @ '' '' @ orElse (description ex_B) [] @ '' '' @
       orElse (section_row ex_B) [] @ '' '' @ orElse (stage ex_B) [] @ '' '' @
       orElse (tags ex_B) []))"
    by code_simp
  have 2: "\<not> sublist (map foldCase (query ex_filter))
     (map foldCase (title ex_A @ '' '' @ orElse (description ex_A) [] @ '' '' @
       orElse (section_row ex_A) [] @ '' '' @ orElse (stage ex_A) [] @ '' '' @
       orElse (tags ex_A) []))"
    by code_simp
  have 3: "sublist (map foldCase (query ex_cross))
     (map foldCase (title ex_B @ '' '' @ orElse (description ex_B) [] @ '' '' @
       orElse (section_row ex_B) [] @ '' '' @ orElse (stage ex_B) [] @ '' '' @
       orElse (tags ex_B) []))"
    by code_simp
  have 4: "\<not> sublist (map foldCase (query ex_cross))
     (map foldCase (title ex_A @ '' '' @ orElse (description ex_A) [] @ '' '' @
       orElse (section_row ex_A) [] @ '' '' @ orElse (stage ex_A) [] @ '' '' @
       orElse (tags ex_A) []))"
    by code_simp
  have 5: "sublist (map foldCase (query ex_latin))
     (map foldCase (title ex_F @ '' '' @ orElse (description ex_F) [] @ '' '' @
       orElse (section_row ex_F) [] @ '' '' @ orElse (stage ex_F) [] @ '' '' @
       orElse (tags ex_F) []))"
    by code_simp
  have 6: "\<not> sublist (map foldCase (query ex_latin))
     (map foldCase (title ex_B @ '' '' @ orElse (description ex_B) [] @ '' '' @
       orElse (section_row ex_B) [] @ '' '' @ orElse (stage ex_B) [] @ '' '' @
       orElse (tags ex_B) []))"
    by code_simp
  have 7: "query ex_default = []"
    by (simp add: ex_default_def)
  from okSearch_substring[of ex_filter ex_B] 1 have a: "okSearch ex_filter ex_B"
    by blast
  from okSearch_substring[of ex_filter ex_A] 2 have b: "\<not> okSearch ex_filter ex_A"
    by blast
  from okSearch_substring[of ex_cross ex_B] 3 have c: "okSearch ex_cross ex_B"
    by blast
  from okSearch_substring[of ex_cross ex_A] 4 have d: "\<not> okSearch ex_cross ex_A"
    by blast
  from okSearch_substring[of ex_latin ex_F] 5 have e: "okSearch ex_latin ex_F"
    by blast
  from okSearch_substring[of ex_latin ex_B] 6 have f: "\<not> okSearch ex_latin ex_B"
    by blast
  from okSearch_substring[of ex_default ex_A] 7 have g: "okSearch ex_default ex_A"
    by blast
  from v1 v2 v3 a b c d e f g 7 show ?thesis
    by (intro conjI)
qed

section \<open>The visible rows\<close>

lemma visibleRows_alt:
  "visibleRows st rows =
     filter (\<lambda>r. okStatus st r \<and> okStage st r \<and> okSection st r \<and> okTags st r \<and>
                 okSearch st r \<and> (onlyNextActionable st \<longrightarrow> id_row r \<in> actionable rows)) rows"
  by (simp add: visibleRows_def Let_def conj_ac cong: conj_cong)

lemma visible_sub: "set (visibleRows st rows) \<subseteq> set rows"
  by (auto simp: visibleRows_alt)

lemma distinct_visible:
  "distinct (map id_row rows) \<Longrightarrow> distinct (map id_row (visibleRows st rows))"
  by (simp add: visibleRows_alt distinct_map_filter)

text \<open>
  C3, as the code has it. The visible rows are a sub-list of the row list. Running
  the filter again on its own output returns the output when the actionable-only
  flag is off; with the flag on, the second run takes the actionable set of the
  output, and keeps the rows of the output whose id is in that set.
\<close>

theorem filter_twice:
  "subseq (visibleRows st rows) rows \<and> set (visibleRows st rows) \<subseteq> set rows \<and>
   visibleRows st (visibleRows st rows) =
     (if onlyNextActionable st
      then filter (\<lambda>r. id_row r \<in> actionable (visibleRows st rows)) (visibleRows st rows)
      else visibleRows st rows)"
proof (intro conjI)
  show "subseq (visibleRows st rows) rows"
    by (simp add: visibleRows_alt)
  show "set (visibleRows st rows) \<subseteq> set rows"
    by (rule visible_sub)
  have "filter (\<lambda>r. okStatus st r \<and> okStage st r \<and> okSection st r \<and> okTags st r \<and> okSearch st r)
          (visibleRows st rows) = visibleRows st rows"
    by (rule filter_True) (simp add: visibleRows_alt)
  then show "visibleRows st (visibleRows st rows) =
     (if onlyNextActionable st
      then filter (\<lambda>r. id_row r \<in> actionable (visibleRows st rows)) (visibleRows st rows)
      else visibleRows st rows)"
    by (simp add: visibleRows_def[of st "visibleRows st rows"] Let_def)
qed

theorem filter_twice_witness:
  "\<not> onlyNextActionable ex_default \<and>
   visibleRows ex_default (visibleRows ex_default ex_rows) = visibleRows ex_default ex_rows \<and>
   visibleRows ex_default ex_rows = ex_rows"
proof -
  have f: "\<not> onlyNextActionable ex_default"
    by (simp add: ex_default_def)
  have v: "visibleRows ex_default ex_rows = ex_rows"
    by code_simp
  from filter_twice[of ex_default ex_rows] f
  have "visibleRows ex_default (visibleRows ex_default ex_rows) = visibleRows ex_default ex_rows"
    by simp
  with f v show ?thesis
    by simp
qed

text \<open>
  With the actionable-only flag on, the second run is not the identity: of the rows
  \<open>A\<close> (done) and \<open>B\<close> (to do, depending on \<open>A\<close>) the filter keeps \<open>B\<close>; run on
  \<open>[B]\<close> alone it finds no completed row and keeps nothing.
\<close>

theorem filter_twice_counterexample:
  "visibleRows ex_next [ex_A, ex_B] = [ex_B] \<and>
   visibleRows ex_next (visibleRows ex_next [ex_A, ex_B]) = [] \<and>
   visibleRows ex_next (visibleRows ex_next [ex_A, ex_B]) \<noteq> visibleRows ex_next [ex_A, ex_B]"
proof -
  have 1: "visibleRows ex_next [ex_A, ex_B] = [ex_B]"
    by code_simp
  have 2: "visibleRows ex_next [ex_B] = []"
    by code_simp
  from 1 2 show ?thesis
    by simp
qed

section \<open>Nodes and edges\<close>

lemma id_node_nodeOf: "id_node (nodeOf r) = id_row r"
  by (simp add: nodeOf_def)

lemma node_ids: "id_node ` set (nodesBuilt st rows) = visibleIds st rows"
  by (simp add: nodesBuilt_def visibleIds_def image_image id_node_nodeOf)

lemma edge_iff:
  "e \<in> set (edgesBuilt st rows) \<longleftrightarrow>
     (\<exists>r \<in> set (visibleRows st rows). \<exists>d \<in> set (depsOf r).
        d \<in> visibleIds st rows \<and>
        e = \<lparr>id_edge = d @ ''->'' @ id_row r, source = d, target = id_row r\<rparr>)"
  by (auto simp: edgesBuilt_def)

lemma edge_endpoints:
  "e \<in> set (edgesBuilt st rows) \<Longrightarrow>
     source e \<in> visibleIds st rows \<and> target e \<in> visibleIds st rows"
  by (auto simp: edge_iff visibleIds_def)

text \<open>
  C2. Both end points of every built edge are ids of built nodes. For a visible row
  \<open>r\<close> and a dependency id \<open>d\<close> of \<open>r\<close>, the edge from \<open>d\<close> to \<open>r\<close> is built iff
  \<open>d\<close> is the id of a visible row, and every built edge is such an edge.
\<close>

theorem edges_within_nodes:
  "(\<forall>e \<in> set (edgesBuilt st rows).
      source e \<in> id_node ` set (nodesBuilt st rows) \<and>
      target e \<in> id_node ` set (nodesBuilt st rows)) \<and>
   (\<forall>r \<in> set (visibleRows st rows). \<forall>d \<in> set (depsOf r).
      (\<lparr>id_edge = d @ ''->'' @ id_row r, source = d, target = id_row r\<rparr>
          \<in> set (edgesBuilt st rows)
         \<longleftrightarrow> d \<in> id_row ` set (visibleRows st rows))) \<and>
   (\<forall>e \<in> set (edgesBuilt st rows).
      \<exists>r \<in> set (visibleRows st rows). \<exists>d \<in> set (depsOf r).
        d \<in> id_row ` set (visibleRows st rows) \<and>
        e = \<lparr>id_edge = d @ ''->'' @ id_row r, source = d, target = id_row r\<rparr>)"
proof (intro conjI ballI)
  fix e assume "e \<in> set (edgesBuilt st rows)"
  then show "source e \<in> id_node ` set (nodesBuilt st rows)"
    and "target e \<in> id_node ` set (nodesBuilt st rows)"
    by (simp_all add: node_ids edge_endpoints)
next
  fix r d assume "r \<in> set (visibleRows st rows)" "d \<in> set (depsOf r)"
  then show "\<lparr>id_edge = d @ ''->'' @ id_row r, source = d, target = id_row r\<rparr>
      \<in> set (edgesBuilt st rows) \<longleftrightarrow> d \<in> id_row ` set (visibleRows st rows)"
    by (auto simp: edge_iff visibleIds_def)
next
  fix e assume "e \<in> set (edgesBuilt st rows)"
  then show "\<exists>r \<in> set (visibleRows st rows). \<exists>d \<in> set (depsOf r).
        d \<in> id_row ` set (visibleRows st rows) \<and>
        e = \<lparr>id_edge = d @ ''->'' @ id_row r, source = d, target = id_row r\<rparr>"
    by (simp add: edge_iff visibleIds_def)
qed

theorem edges_within_nodes_witness:
  "ex_edge \<in> set (edgesBuilt ex_default ex_rows) \<and>
   source ex_edge \<in> id_node ` set (nodesBuilt ex_default ex_rows) \<and>
   target ex_edge \<in> id_node ` set (nodesBuilt ex_default ex_rows) \<and>
   ex_C \<in> set (visibleRows ex_default ex_rows) \<and> ''X'' \<in> set (depsOf ex_C) \<and>
   ''X'' \<notin> id_row ` set (visibleRows ex_default ex_rows) \<and>
   \<lparr>id_edge = ''X'' @ ''->'' @ id_row ex_C, source = ''X'', target = id_row ex_C\<rparr>
      \<notin> set (edgesBuilt ex_default ex_rows)"
proof -
  have m: "ex_edge \<in> set (edgesBuilt ex_default ex_rows)"
    by code_simp
  have c: "ex_C \<in> set (visibleRows ex_default ex_rows)" "''X'' \<in> set (depsOf ex_C)"
    "''X'' \<notin> id_row ` set (visibleRows ex_default ex_rows)"
    by code_simp+
  note t = edges_within_nodes[of ex_default ex_rows]
  from t m have "source ex_edge \<in> id_node ` set (nodesBuilt ex_default ex_rows) \<and>
      target ex_edge \<in> id_node ` set (nodesBuilt ex_default ex_rows)"
    by blast
  moreover from t c
  have "\<lparr>id_edge = ''X'' @ ''->'' @ id_row ex_C, source = ''X'', target = id_row ex_C\<rparr>
      \<notin> set (edgesBuilt ex_default ex_rows)"
    by blast
  ultimately show ?thesis
    using m c by blast
qed

section \<open>Toggling a row\<close>

text \<open>
  C7. The handler keeps the length and the order of the row list; a row with another
  id is kept as it is; a row with the named id gets the status \<open>"done"\<close> or \<open>"todo"\<close>
  and keeps every other field.
\<close>

theorem onChange_frame:
  "length (onChange rows rid checked) = length rows \<and>
   (\<forall>i < length rows.
      (id_row (rows ! i) \<noteq> rid \<longrightarrow> onChange rows rid checked ! i = rows ! i) \<and>
      (id_row (rows ! i) = rid \<longrightarrow>
         onChange rows rid checked ! i =
           (rows ! i)\<lparr>status := Some (if checked then ''done'' else ''todo'')\<rparr>) \<and>
      id_row (onChange rows rid checked ! i) = id_row (rows ! i) \<and>
      title (onChange rows rid checked ! i) = title (rows ! i) \<and>
      section_row (onChange rows rid checked ! i) = section_row (rows ! i) \<and>
      stage (onChange rows rid checked ! i) = stage (rows ! i) \<and>
      description (onChange rows rid checked ! i) = description (rows ! i) \<and>
      priority (onChange rows rid checked ! i) = priority (rows ! i) \<and>
      depends_on (onChange rows rid checked ! i) = depends_on (rows ! i) \<and>
      tags (onChange rows rid checked ! i) = tags (rows ! i))"
  by (simp add: onChange_def)

theorem onChange_frame_witness:
  "(1::nat) < length ex_rows \<and> id_row (ex_rows ! 1) = ''B'' \<and>
   onChange ex_rows ''B'' True ! 1 = ex_B\<lparr>status := Some ''done''\<rparr> \<and>
   (0::nat) < length ex_rows \<and> id_row (ex_rows ! 0) \<noteq> ''B'' \<and>
   onChange ex_rows ''B'' True ! 0 = ex_A"
proof -
  have l: "(1::nat) < length ex_rows" "(0::nat) < length ex_rows"
    by (simp_all add: ex_rows_def)
  have i: "id_row (ex_rows ! 1) = ''B''" "id_row (ex_rows ! 0) \<noteq> ''B''"
    by (simp_all add: ex_rows_def ex_A_def ex_B_def)
  have r: "ex_rows ! 1 = ex_B" "ex_rows ! 0 = ex_A"
    by (simp_all add: ex_rows_def)
  note t = onChange_frame[of ex_rows "''B''" True]
  from t l(1) i(1) have "onChange ex_rows ''B'' True ! 1 =
      (ex_rows ! 1)\<lparr>status := Some (if True then ''done'' else ''todo'')\<rparr>"
    by blast
  moreover from t l(2) i(2) have "onChange ex_rows ''B'' True ! 0 = ex_rows ! 0"
    by blast
  ultimately show ?thesis
    using l i r by simp
qed

section \<open>Rows without a stage\<close>

lemma trim_Unsorted: "trim ''Unsorted'' = ''Unsorted''"
  by code_simp

lemma Unsorted_not_stage: "''Unsorted'' \<notin> set STAGE_ORDER"
  by (simp add: STAGE_ORDER_def)

text \<open>
  C10. Let the selected stages be the four stages of \<open>STAGE_ORDER\<close>, whatever the
  other filters are. A parsed record without a stage is loaded with the stage
  \<open>"Unsorted"\<close>, fails the stage predicate and is in no list of visible rows; the
  same holds for a row whose stage is absent in the row store.
\<close>

theorem unsorted_hidden:
  assumes "selectedStages st = STAGE_ORDER"
    and "stage r = None \<or> stage r = Some []"
  shows "stage (mergeSaved saved (loadRow r)) = Some ''Unsorted'' \<and>
         \<not> okStage st (mergeSaved saved (loadRow r)) \<and>
         mergeSaved saved (loadRow r) \<notin> set (visibleRows st rows) \<and>
         \<not> okStage st r \<and> r \<notin> set (visibleRows st rows)"
proof -
  have s: "stage (mergeSaved saved (loadRow r)) = Some ''Unsorted''"
    using assms(2) by (auto simp: mergeSaved_def loadRow_def trim_Unsorted split: option.splits)
  then have n: "\<not> okStage st (mergeSaved saved (loadRow r))"
    by (simp add: okStage_def assms(1) Unsorted_not_stage)
  have n': "\<not> okStage st r"
    using assms(2) by (auto simp: okStage_def assms(1) STAGE_ORDER_def)
  from s n n' show ?thesis
    by (auto simp: visibleRows_alt)
qed

theorem unsorted_hidden_witness:
  "selectedStages ex_default = STAGE_ORDER \<and> stage ex_raw = None \<and>
   mergeSaved Map.empty (loadRow ex_raw) \<in> set (loadRows Map.empty [ex_A, ex_raw]) \<and>
   stage (mergeSaved Map.empty (loadRow ex_raw)) = Some ''Unsorted'' \<and>
   mergeSaved Map.empty (loadRow ex_raw)
     \<notin> set (visibleRows ex_default (loadRows Map.empty [ex_A, ex_raw]))"
proof -
  have a: "selectedStages ex_default = STAGE_ORDER"
    by (simp add: ex_default_def)
  have b: "stage ex_raw = None"
    by (simp add: ex_raw_def)
  have c: "mergeSaved Map.empty (loadRow ex_raw) \<in> set (loadRows Map.empty [ex_A, ex_raw])"
    by (simp add: loadRows_def)
  from unsorted_hidden[of ex_default ex_raw Map.empty "loadRows Map.empty [ex_A, ex_raw]"] a b
  have "stage (mergeSaved Map.empty (loadRow ex_raw)) = Some ''Unsorted'' \<and>
     mergeSaved Map.empty (loadRow ex_raw)
       \<notin> set (visibleRows ex_default (loadRows Map.empty [ex_A, ex_raw]))"
    by blast
  with a b c show ?thesis
    by blast
qed

section \<open>Edges per pair of end points\<close>

lemma count_inner:
  "length (filter (\<lambda>e. source e = d \<and> target e = t)
     (map (\<lambda>dep. \<lparr>id_edge = dep @ ''->'' @ id_row x, source = dep, target = id_row x\<rparr>)
        (filter (\<lambda>dep. dep \<in> S) ds))) =
   (if id_row x = t \<and> d \<in> S then count_list ds d else 0)"
  by (induction ds) auto

lemma count_edges:
  "length (filter (\<lambda>e. source e = d \<and> target e = t)
     (concat (map (\<lambda>r. map (\<lambda>dep. \<lparr>id_edge = dep @ ''->'' @ id_row r, source = dep,
                                    target = id_row r\<rparr>)
          (filter (\<lambda>dep. dep \<in> S) (depsOf r))) xs))) =
   (if d \<in> S
    then sum_list (map (\<lambda>r. count_list (depsOf r) d) (filter (\<lambda>r. id_row r = t) xs))
    else 0)"
  (is "length (filter ?P (concat (map ?g xs))) = ?rhs xs")
proof (induction xs)
  case Nil
  show ?case by simp
next
  case (Cons x xs)
  have "length (filter ?P (concat (map ?g (x # xs)))) =
          length (filter ?P (?g x)) + length (filter ?P (concat (map ?g xs)))"
    by simp
  also have "length (filter ?P (?g x)) =
      (if id_row x = t \<and> d \<in> S then count_list (depsOf x) d else 0)"
    by (rule count_inner)
  also note Cons.IH
  finally show ?case
    by simp
qed

lemma filter_id_single:
  "distinct (map id_row xs) \<Longrightarrow> r \<in> set xs \<Longrightarrow>
     filter (\<lambda>r'. id_row r' = id_row r) xs = [r]"
proof (induction xs)
  case Nil
  then show ?case by simp
next
  case (Cons x xs)
  show ?case
  proof (cases "x = r")
    case True
    with Cons.prems have "\<forall>y \<in> set xs. id_row y \<noteq> id_row r"
      by (auto simp: image_iff)
    with True show ?thesis
      by (simp add: filter_empty_conv)
  next
    case False
    with Cons.prems have "r \<in> set xs" "id_row x \<noteq> id_row r"
      by auto
    with Cons show ?thesis
      by simp
  qed
qed

text \<open>
  C4, as the code has it. In a row list with pairwise different ids, the number of
  built edges from \<open>d\<close> to a visible row \<open>r\<close> is the number of times \<open>d\<close> occurs in
  the split dependency list of \<open>r\<close> when \<open>d\<close> is a visible id, and zero otherwise;
  so there is at most one edge per pair when the row lists no dependency twice.
\<close>

theorem edges_per_pair:
  assumes "distinct (map id_row rows)" and "r \<in> set (visibleRows st rows)"
  shows "length (filter (\<lambda>e. source e = d \<and> target e = id_row r) (edgesBuilt st rows)) =
           (if d \<in> visibleIds st rows then count_list (depsOf r) d else 0) \<and>
         (distinct (depsOf r) \<longrightarrow>
            length (filter (\<lambda>e. source e = d \<and> target e = id_row r) (edgesBuilt st rows))
              \<le> 1)"
proof -
  have 1: "length (filter (\<lambda>e. source e = d \<and> target e = id_row r) (edgesBuilt st rows)) =
           (if d \<in> visibleIds st rows then count_list (depsOf r) d else 0)"
    unfolding edgesBuilt_def count_edges
    by (simp add: filter_id_single[OF distinct_visible[OF assms(1)] assms(2)])
  moreover have "distinct xs \<Longrightarrow> count_list xs d \<le> 1" for xs
    by (induction xs) (auto simp: count_list_0_iff)
  ultimately show ?thesis by auto
qed

theorem edges_per_pair_witness:
  "distinct (map id_row ex_rows) \<and> ex_B \<in> set (visibleRows ex_default ex_rows) \<and>
   ''A'' \<in> visibleIds ex_default ex_rows \<and> distinct (depsOf ex_B) \<and>
   length (filter (\<lambda>e. source e = ''A'' \<and> target e = id_row ex_B)
     (edgesBuilt ex_default ex_rows)) = count_list (depsOf ex_B) ''A'' \<and>
   length (filter (\<lambda>e. source e = ''A'' \<and> target e = id_row ex_B)
     (edgesBuilt ex_default ex_rows)) \<le> 1"
proof -
  have a: "distinct (map id_row ex_rows)" "ex_B \<in> set (visibleRows ex_default ex_rows)"
    "''A'' \<in> visibleIds ex_default ex_rows" "distinct (depsOf ex_B)"
    by code_simp+
  from edges_per_pair[of ex_rows ex_B ex_default "''A''"] a
  have "length (filter (\<lambda>e. source e = ''A'' \<and> target e = id_row ex_B)
     (edgesBuilt ex_default ex_rows)) = count_list (depsOf ex_B) ''A'' \<and>
   length (filter (\<lambda>e. source e = ''A'' \<and> target e = id_row ex_B)
     (edgesBuilt ex_default ex_rows)) \<le> 1"
    by simp
  with a show ?thesis
    by simp
qed

text \<open>
  A dependency listed twice is not collapsed: the row \<open>B\<close> with the dependency cell
  \<open>"A|A"\<close> gets two edges from \<open>A\<close>, both with the identifier \<open>"A->B"\<close>.
\<close>

theorem edges_per_pair_counterexample:
  "depsOf ex_B2 = [''A'', ''A''] \<and>
   edgesBuilt ex_default [ex_A, ex_B2] = [ex_edge, ex_edge]"
proof -
  have "depsOf ex_B2 = [''A'', ''A'']"
    by code_simp
  moreover have "edgesBuilt ex_default [ex_A, ex_B2] = [ex_edge, ex_edge]"
    by code_simp
  ultimately show ?thesis
    by simp
qed

section \<open>Toggling and toggling back\<close>

lemma sameView_fields:
  assumes "\<forall>r \<in> set rows. sameView r (g r)" and "r \<in> set rows"
  shows "id_row (g r) = id_row r" "isDone (g r) = isDone r" "depsOf (g r) = depsOf r"
    "okStatus st (g r) = okStatus st r" "okStage st (g r) = okStage st r"
    "okSection st (g r) = okSection st r" "okTags st (g r) = okTags st r"
    "okSearch st (g r) = okSearch st r" "nodeOf (g r) = nodeOf r"
proof -
  from assms obtain s where r': "g r = r\<lparr>status := s\<rparr>" and d: "isDone (g r) = isDone r"
    unfolding sameView_def by blast
  show "id_row (g r) = id_row r" "depsOf (g r) = depsOf r" "okStage st (g r) = okStage st r"
    "okSection st (g r) = okSection st r" "okTags st (g r) = okTags st r"
    by (simp_all add: r' depsOf_def okStage_def okSection_def okTags_def)
  show "isDone (g r) = isDone r" by (rule d)
  show "okStatus st (g r) = okStatus st r"
    by (simp add: okStatus_def d split: StatusFilter.split)
  show "okSearch st (g r) = okSearch st r"
    by (simp add: okSearch_def hay_def r')
  show "nodeOf (g r) = nodeOf r"
    using d by (simp add: nodeOf_def r')
qed

lemma completed_map:
  assumes "\<forall>r \<in> set rows. sameView r (g r)"
  shows "completed (map g rows) = completed rows"
  by (auto simp: completed_iff sameView_fields[OF assms])

lemma actionable_map:
  assumes "\<forall>r \<in> set rows. sameView r (g r)"
  shows "actionable (map g rows) = actionable rows"
  by (auto simp: actionable_iff completed_map[OF assms] sameView_fields[OF assms])

lemma visibleRows_map:
  assumes "\<forall>r \<in> set rows. sameView r (g r)"
  shows "visibleRows st (map g rows) = map g (visibleRows st rows)"
proof -
  have "filter ((\<lambda>r. okStatus st r \<and> okStage st r \<and> okSection st r \<and> okTags st r \<and>
                 okSearch st r \<and> (onlyNextActionable st \<longrightarrow> id_row r \<in> actionable rows)) \<circ> g)
          rows =
        filter (\<lambda>r. okStatus st r \<and> okStage st r \<and> okSection st r \<and> okTags st r \<and>
                 okSearch st r \<and> (onlyNextActionable st \<longrightarrow> id_row r \<in> actionable rows)) rows"
    by (intro filter_cong refl) (simp add: sameView_fields[OF assms])
  then show ?thesis
    by (simp add: visibleRows_alt actionable_map[OF assms] filter_map)
qed

lemma sameView_visible:
  assumes "\<forall>r \<in> set rows. sameView r (g r)"
  shows "\<forall>r \<in> set (visibleRows st rows). sameView r (g r)"
  using assms visible_sub[of st rows] by blast

lemma nodesBuilt_map:
  assumes "\<forall>r \<in> set rows. sameView r (g r)"
  shows "nodesBuilt st (map g rows) = nodesBuilt st rows"
  by (simp add: nodesBuilt_def visibleRows_map[OF assms]
      sameView_fields[OF sameView_visible[OF assms]])

lemma visibleIds_map:
  assumes "\<forall>r \<in> set rows. sameView r (g r)"
  shows "visibleIds st (map g rows) = visibleIds st rows"
  by (simp add: visibleIds_def visibleRows_map[OF assms]
      sameView_fields[OF sameView_visible[OF assms]])

lemma edgesBuilt_map:
  assumes "\<forall>r \<in> set rows. sameView r (g r)"
  shows "edgesBuilt st (map g rows) = edgesBuilt st rows"
  unfolding edgesBuilt_def visibleRows_map[OF assms] visibleIds_map[OF assms] map_map
  by (intro arg_cong[where f=concat] map_cong refl)
    (simp add: sameView_fields[OF sameView_visible[OF assms]])

lemma onChange_twice: "onChange (onChange rows i b) i c = onChange rows i c"
  by (simp add: onChange_def)

lemma click_row:
  assumes "r1 \<in> set (click rows r)" "id_row r1 = id_row r"
  shows "isDone r1 = (\<not> isDone r)"
  using assms by (auto simp: click_def onChange_def isDone_def)

lemma onChange_sameView:
  assumes "\<forall>rr \<in> set rows. id_row rr = i \<longrightarrow> isDone rr = b"
  shows "\<forall>rr \<in> set rows. sameView rr (if id_row rr = i
               then rr\<lparr>status := Some (if b then ''done'' else ''todo'')\<rparr> else rr)"
  using assms by (auto simp: sameView_def isDone_def)

text \<open>
  C6. In a row list with pairwise different ids, clicking the check box of a row
  \<open>r\<close> and then the check box of the same row again (\<open>r1\<close>, the row with the id of
  \<open>r\<close> after the first click) gives the actionable set, the node list and the edge
  list of the row list before the first click, for every filter state.
\<close>

theorem toggle_round_trip:
  assumes "distinct (map id_row rows)" and "r \<in> set rows"
    and "r1 \<in> set (click rows r)" and "id_row r1 = id_row r"
  shows "actionable (click (click rows r) r1) = actionable rows \<and>
         nodesBuilt st (click (click rows r) r1) = nodesBuilt st rows \<and>
         edgesBuilt st (click (click rows r) r1) = edgesBuilt st rows"
proof -
  have "click (click rows r) r1 = onChange rows (id_row r) (isDone r)"
    using click_row[OF assms(3,4)] by (simp add: click_def assms(4) onChange_twice)
  moreover have "\<forall>rr \<in> set rows. id_row rr = id_row r \<longrightarrow> isDone rr = isDone r"
    using distinct_id_eq[OF assms(1) _ assms(2)] by blast
  ultimately show ?thesis
    using onChange_sameView
    by (simp add: onChange_def actionable_map nodesBuilt_map edgesBuilt_map)
qed

theorem toggle_round_trip_witness:
  "distinct (map id_row ex_rows) \<and> ex_A \<in> set ex_rows \<and>
   ex_A\<lparr>status := Some ''todo''\<rparr> \<in> set (click ex_rows ex_A) \<and>
   id_row (ex_A\<lparr>status := Some ''todo''\<rparr>) = id_row ex_A \<and>
   actionable (click ex_rows ex_A) \<noteq> actionable ex_rows \<and>
   actionable (click (click ex_rows ex_A) (ex_A\<lparr>status := Some ''todo''\<rparr>))
     = actionable ex_rows \<and>
   nodesBuilt ex_default (click (click ex_rows ex_A) (ex_A\<lparr>status := Some ''todo''\<rparr>))
     = nodesBuilt ex_default ex_rows \<and>
   edgesBuilt ex_default (click (click ex_rows ex_A) (ex_A\<lparr>status := Some ''todo''\<rparr>))
     = edgesBuilt ex_default ex_rows"
proof -
  have a: "distinct (map id_row ex_rows)" "ex_A \<in> set ex_rows"
    "ex_A\<lparr>status := Some ''todo''\<rparr> \<in> set (click ex_rows ex_A)"
    "id_row (ex_A\<lparr>status := Some ''todo''\<rparr>) = id_row ex_A"
    by code_simp+
  have b: "actionable (click ex_rows ex_A) \<noteq> actionable ex_rows"
    by code_simp
  from toggle_round_trip[of ex_rows ex_A "ex_A\<lparr>status := Some ''todo''\<rparr>" ex_default] a
  have "actionable (click (click ex_rows ex_A) (ex_A\<lparr>status := Some ''todo''\<rparr>))
     = actionable ex_rows \<and>
   nodesBuilt ex_default (click (click ex_rows ex_A) (ex_A\<lparr>status := Some ''todo''\<rparr>))
     = nodesBuilt ex_default ex_rows \<and>
   edgesBuilt ex_default (click (click ex_rows ex_A) (ex_A\<lparr>status := Some ''todo''\<rparr>))
     = edgesBuilt ex_default ex_rows"
    by blast
  with a b show ?thesis
    by blast
qed

section \<open>The section default after the load\<close>

lemma allSections_nonempty: "rows \<noteq> [] \<Longrightarrow> allSections rows \<noteq> []"
  by (cases rows) (auto simp: allSections_def simp flip: set_empty)

lemma defaultSections_twice: "defaultSections (defaultSections s) = defaultSections s"
  by (simp add: defaultSections_def allSections_nonempty)

text \<open>
  Clearing a non-empty selection while rows are loaded changes the length that the
  effect depends on, so the effect runs and selects every section again.
\<close>

lemma cleared_selection_is_defaulted:
  assumes "rawRows s \<noteq> []" and "selectedSections (filterState s) \<noteq> []"
  shows "selectedSections (filterState (dispatch (SetSelectedSections []) s)) =
           allSections (rawRows s)"
  using assms
  by (simp add: dispatch_def afterRender_def effectDeps_def defaultSections_def Let_def
      allSections_nonempty)

text \<open>
  C9 on the code. After the load the selection is the default, both sections. The
  user then selects \<open>General\<close> alone, which is kept as it is, and then presses the
  button None, which sets the empty selection: the effect runs once more and the
  selection is both sections again, not the empty one.
\<close>

theorem section_default_runs_again:
  "selectedSections (filterState ex_loaded) = [''Economy'', ''General''] \<and>
   selectedSections (filterState (dispatch (SetSelectedSections [''General'']) ex_loaded))
     = [''General''] \<and>
   selectedSections (filterState (dispatch (SetSelectedSections [])
       (dispatch (SetSelectedSections [''General'']) ex_loaded)))
     = [''Economy'', ''General'']"
proof (intro conjI)
  show "selectedSections (filterState ex_loaded) = [''Economy'', ''General'']"
    by code_simp
  show "selectedSections (filterState (dispatch (SetSelectedSections [''General'']) ex_loaded))
     = [''General'']"
    by code_simp
  show "selectedSections (filterState (dispatch (SetSelectedSections [])
       (dispatch (SetSelectedSections [''General'']) ex_loaded)))
     = [''Economy'', ''General'']"
    by code_simp
qed

section \<open>Layout along the rank axis\<close>

lemma maxList_ge: "x \<in> set xs \<Longrightarrow> x \<le> maxList xs"
  unfolding maxList_def by (induction xs) auto

lemma longestPath_step:
  "e \<in> set es \<Longrightarrow> Suc (longestPath es k (source e)) \<le> longestPath es (Suc k) (target e)"
  by (auto intro!: maxList_ge)

lemma ancestors_sub: "ancestors es v \<subseteq> source ` set es"
proof
  fix u assume "u \<in> ancestors es v"
  then have "(u, v) \<in> (edgeRel es)\<^sup>+"
    by (simp add: ancestors_def)
  then have "u \<in> Domain (edgeRel es)"
    by (metis Domain.DomainI trancl_domain)
  then show "u \<in> source ` set es"
    by (auto simp: edgeRel_def)
qed

lemma finite_ancestors: "finite (ancestors es v)"
  by (rule finite_subset[OF ancestors_sub]) simp

text \<open>Along an edge of an acyclic graph the number of ancestors grows.\<close>

lemma ancestors_edge:
  assumes "acyclic (edgeRel es)" and "e \<in> set es"
  shows "card (ancestors es (source e)) < card (ancestors es (target e))"
proof (rule psubset_card_mono[OF finite_ancestors])
  have st: "(source e, target e) \<in> edgeRel es"
    using assms(2) by (auto simp: edgeRel_def)
  have "ancestors es (source e) \<subseteq> ancestors es (target e)"
    using st by (auto simp: ancestors_def intro: trancl_into_trancl)
  moreover have "source e \<in> ancestors es (target e)"
    using st by (auto simp: ancestors_def)
  moreover have "source e \<notin> ancestors es (source e)"
    using assms(1) by (auto simp: ancestors_def acyclic_def)
  ultimately show "ancestors es (source e) \<subset> ancestors es (target e)"
    by blast
qed

text \<open>
  With at least as many rounds as a node has ancestors, one more round does not
  change its distance.
\<close>

lemma longestPath_stable:
  assumes "acyclic (edgeRel es)"
  shows "card (ancestors es v) \<le> k \<Longrightarrow> longestPath es (Suc k) v = longestPath es k v"
proof (induction k arbitrary: v)
  case 0
  have "filter (\<lambda>e. target e = v) es = []"
  proof (rule ccontr)
    assume "filter (\<lambda>e. target e = v) es \<noteq> []"
    then obtain e where "e \<in> set es" "target e = v"
      by (auto simp: filter_empty_conv)
    with ancestors_edge[OF assms, of e] 0 show False
      by simp
  qed
  then show ?case
    by (simp add: maxList_def)
next
  case (Suc k)
  let ?ps = "filter (\<lambda>e. target e = v) es"
  have "longestPath es (Suc k) (source e) = longestPath es k (source e)" if "e \<in> set ?ps" for e
  proof (rule Suc.IH)
    from that have "e \<in> set es" "target e = v"
      by auto
    with ancestors_edge[OF assms, of e] Suc.prems
    show "card (ancestors es (source e)) \<le> k"
      by simp
  qed
  then have "map (\<lambda>e. Suc (longestPath es (Suc k) (source e))) ?ps =
             map (\<lambda>e. Suc (longestPath es k (source e))) ?ps"
    by (intro map_cong refl) (simp only:)
  then have "maxList (map (\<lambda>e. Suc (longestPath es (Suc k) (source e))) ?ps) =
             longestPath es (Suc k) v"
    by (simp only: longestPath.simps)
  then show ?case
    by (simp only: longestPath.simps)
qed

lemma card_ancestors_le: "card (ancestors es v) \<le> card (source ` set es)"
  by (rule card_mono[OF _ ancestors_sub]) simp

lemma rank_edge:
  assumes "acyclic (edgeRel es)" and "source ` set es \<subseteq> id_node ` set ns" and "e \<in> set es"
  shows "rank ns es (source e) < rank ns es (target e)"
proof -
  have "card (source ` set es) \<le> card (id_node ` set ns)"
    by (rule card_mono[OF _ assms(2)]) simp
  also have "\<dots> \<le> length ns"
    by (metis card_image_le card_length le_trans List.finite_set)
  finally have "card (ancestors es (target e)) \<le> length ns"
    using card_ancestors_le[of es "target e"] by simp
  from longestPath_stable[OF assms(1) this] longestPath_step[OF assms(3), of "length ns"]
  show ?thesis
    by (simp add: rank_def)
qed

lemma position_laidOut:
  "n \<in> set (laidOutNodes dir ns es) \<Longrightarrow>
     rankAxis dir (position n) =
       MARGIN + int (rank ns es (id_node n)) *
         ((case dir of LR \<Rightarrow> NODE_W | TB \<Rightarrow> NODE_H) + RANK_SEP)"
  by (cases dir) (auto simp: laidOutNodes_def dagreNode_def Node.extend_def Node.defs)

text \<open>
  C5, for the layout routine as the design describes it. When the built edges form
  an acyclic graph, then for either direction and every built edge, every laid-out
  node with the id of the edge's source has a smaller coordinate on the rank axis
  than every laid-out node with the id of the edge's target.
\<close>

theorem layout_source_before_target:
  assumes "acyclic (edgeRel (edgesBuilt st rows))"
    and "e \<in> set (edgesBuilt st rows)"
    and "n \<in> set (laidOutNodes dir (nodesBuilt st rows) (edgesBuilt st rows))"
    and "m \<in> set (laidOutNodes dir (nodesBuilt st rows) (edgesBuilt st rows))"
    and "id_node n = source e" and "id_node m = target e"
  shows "rankAxis dir (position n) < rankAxis dir (position m)"
proof -
  let ?step = "(case dir of LR \<Rightarrow> NODE_W | TB \<Rightarrow> NODE_H) + RANK_SEP"
  have "source ` set (edgesBuilt st rows) \<subseteq> id_node ` set (nodesBuilt st rows)"
    by (auto simp: node_ids edge_endpoints)
  from rank_edge[OF assms(1) this assms(2)]
  have "int (rank (nodesBuilt st rows) (edgesBuilt st rows) (source e)) * ?step
      < int (rank (nodesBuilt st rows) (edgesBuilt st rows) (target e)) * ?step"
    by (cases dir) (simp_all add: NODE_W_def NODE_H_def RANK_SEP_def)
  then show ?thesis
    by (simp add: position_laidOut[OF assms(3)] position_laidOut[OF assms(4)] assms(5,6))
qed

theorem layout_source_before_target_witness:
  "acyclic (edgeRel (edgesBuilt ex_default ex_chain)) \<and>
   ex_edge \<in> set (edgesBuilt ex_default ex_chain) \<and>
   ex_laid TB ! 0 \<in> set (ex_laid TB) \<and> ex_laid TB ! 1 \<in> set (ex_laid TB) \<and>
   id_node (ex_laid TB ! 0) = source ex_edge \<and> id_node (ex_laid TB ! 1) = target ex_edge \<and>
   position (ex_laid TB ! 0) = (40, 40) \<and> position (ex_laid TB ! 1) = (40, 370) \<and>
   rankAxis TB (position (ex_laid TB ! 0)) < rankAxis TB (position (ex_laid TB ! 1))"
proof -
  have a: "acyclic (edgeRel (edgesBuilt ex_default ex_chain))"
    "ex_edge \<in> set (edgesBuilt ex_default ex_chain)"
    by code_simp+
  have b: "ex_laid TB ! 0 \<in> set (ex_laid TB)" "ex_laid TB ! 1 \<in> set (ex_laid TB)"
    "id_node (ex_laid TB ! 0) = source ex_edge" "id_node (ex_laid TB ! 1) = target ex_edge"
    by code_simp+
  have c: "position (ex_laid TB ! 0) = (40, 40)" "position (ex_laid TB ! 1) = (40, 370)"
    by code_simp+
  from layout_source_before_target[of ex_default ex_chain ex_edge "ex_laid TB ! 0" TB
      "ex_laid TB ! 1"] a b
  have "rankAxis TB (position (ex_laid TB ! 0)) < rankAxis TB (position (ex_laid TB ! 1))"
    by (simp add: ex_laid_def)
  with a b c show ?thesis
    by blast
qed

end
